theory Spec2Isabelle
  imports Main "HOL-Library.Sublist"
begin

section \<open>The chat component of src/src/App.tsx\<close>

text \<open>
  The component keeps four pieces of React state (\<open>messages\<close>, \<open>input\<close>, \<open>isLoading\<close>,
  \<open>selectedImage\<close>) and one asynchronous handler, \<open>handleSend\<close>, which suspends while the
  model's answer streams in.  The embedding below follows the source line by line:
  JavaScript values that may be \<open>undefined\<close> or \<open>null\<close> are options, the clock readings of
  \<open>Date.now()\<close> and \<open>new Date()\<close> and the behaviour of the SDK are inputs, and every
  suspension point of the handler is a separate event of a step function.
\<close>

subsection \<open>JavaScript helpers\<close>

text \<open>Truthiness of a value of type \<open>string | null | undefined\<close>: the empty string is falsy.\<close>

definition js_truthy :: "string option \<Rightarrow> bool" where
  "js_truthy v = (case v of None \<Rightarrow> False | Some s \<Rightarrow> s \<noteq> [])"

text \<open>
  \<open>String.prototype.trim\<close> removes white space and line terminators from both ends.
  Among the characters a \<open>char\<close> can hold these are TAB, LF, VT, FF, CR, SPACE and NBSP.
\<close>

definition is_ws :: "char \<Rightarrow> bool" where
  "is_ws c = (of_char c \<in> {9, 10, 11, 12, 13, 32, 160 :: nat})"

definition trim :: "string \<Rightarrow> string" where
  "trim s = rev (dropWhile is_ws (rev (dropWhile is_ws s)))"

text \<open>\<open>Number.prototype.toString\<close> on a non-negative integer: its decimal digits.\<close>

fun toString :: "nat \<Rightarrow> string" where
  "toString n =
     (if n < 10 then [char_of (48 + n)]
      else toString (n div 10) @ [char_of (48 + n mod 10)])"

declare toString.simps [simp del]

text \<open>\<open>s.split(c)\<close> for a one-character separator: the pieces between the separators.\<close>

fun split_on :: "char \<Rightarrow> string \<Rightarrow> string list" where
  "split_on c [] = [[]]"
| "split_on c (x # xs) =
     (case split_on c xs of
        [] \<Rightarrow> (if x = c then [[], []] else [[x]])
      | p # ps \<Rightarrow> (if x = c then [] # p # ps else (x # p) # ps))"

text \<open>\<open>a[i]\<close> on an array: \<open>undefined\<close> out of range.\<close>

definition index_opt :: "'a list \<Rightarrow> nat \<Rightarrow> 'a option" where
  "index_opt a i = (if i < length a then Some (a ! i) else None)"

text \<open>
  \<open>a.findIndex(p)\<close>: the index of the first element satisfying \<open>p\<close>, or \<open>-1\<close>.
  The second argument is the index of the head of the list still to be searched.
\<close>

fun findIndex_from :: "('a \<Rightarrow> bool) \<Rightarrow> nat \<Rightarrow> 'a list \<Rightarrow> int" where
  "findIndex_from p i [] = -1"
| "findIndex_from p i (x # xs) = (if p x then int i else findIndex_from p (Suc i) xs)"

definition findIndex :: "('a \<Rightarrow> bool) \<Rightarrow> 'a list \<Rightarrow> int" where
  "findIndex p a = findIndex_from p 0 a"

text \<open>
  \<open>a.filter((v, i, a) => ...)\<close>: the callback receives the element, its index and the
  whole array.
\<close>

fun filter_from :: "('a \<Rightarrow> nat \<Rightarrow> 'a list \<Rightarrow> bool) \<Rightarrow> 'a list \<Rightarrow> nat \<Rightarrow> 'a list \<Rightarrow> 'a list" where
  "filter_from f a i [] = []"
| "filter_from f a i (v # vs) =
     (if f v i a then v # filter_from f a (Suc i) vs else filter_from f a (Suc i) vs)"

definition js_filter :: "('a \<Rightarrow> nat \<Rightarrow> 'a list \<Rightarrow> bool) \<Rightarrow> 'a list \<Rightarrow> 'a list" where
  "js_filter f a = filter_from f a 0 a"

subsection \<open>Data model\<close>

datatype msg_role = User | Bot

record source =
  uri :: string
  title :: string

text \<open>
  \<open>interface Message\<close>.  The fields \<open>id\<close> and \<open>image\<close> carry a suffix because HOL has
  constants of these names.  \<open>timestamp\<close> is the reading of the clock in milliseconds.
\<close>

record message =
  id_m :: string
  role :: msg_role
  content :: string
  timestamp :: nat
  image_m :: "string option"
  sources :: "source list option"

text \<open>What the SDK receives: content parts, history turns, and the two calls made.\<close>

datatype part = InlineData "string option" string | TextPart string

record turn =
  role_t :: string
  parts :: "part list"

datatype api_call = ChatsCreate string "turn list" | SendMessageStream "part list"

text \<open>
  What the SDK delivers: a chunk of the stream exposes its text (possibly \<open>undefined\<close>)
  and, through \<open>candidates?.[0]?.groundingMetadata?.groundingChunks\<close>, an optional array
  of grounding chunks, each with an optional \<open>web\<close> record.
\<close>

record gchunk =
  web :: "source option"

record chunk =
  text_c :: "string option"
  groundingChunks :: "gchunk list option"

text \<open>
  The local variables of a suspended \<open>handleSend\<close>: \<open>botMessageId\<close>, \<open>fullResponse\<close> and
  the running \<open>sources\<close> list of the loop.
\<close>

record stream_task =
  botMessageId :: string
  fullResponse :: string
  sources_run :: "source list"

text \<open>
  The state of the component: the four \<open>useState\<close> cells, the suspended handler (if any)
  and the log of the calls made to the SDK so far.
\<close>

record app =
  messages :: "message list"
  input :: string
  isLoading :: bool
  selectedImage :: "string option"
  task :: "stream_task option"
  calls :: "api_call list"

text \<open>
  What one invocation of \<open>handleSend\<close> reads from outside up to its first suspension:
  the clock at lines 68, 71, 104, 111, 159 and 162, the configured API key, and whether
  the SDK's client (line 85) and chat session (line 95) are created without an exception.
\<close>

record send_env =
  now_user :: nat
  date_user :: nat
  apiKey :: "string option"
  client_ok :: bool
  create_ok :: bool
  now_bot :: nat
  date_bot :: nat
  now_catch :: nat
  date_catch :: nat

subsection \<open>The initial transcript and \<open>clearChat\<close>\<close>

definition init :: "nat \<Rightarrow> app" where
  "init date =
     \<lparr>messages =
        [\<lparr>id_m = ''1'', role = Bot,
          content = ''Hello! I'm your Gemini-powered assistant. How can I help you today?'',
          timestamp = date, image_m = None, sources = None\<rparr>],
      input = [], isLoading = False, selectedImage = None, task = None, calls = []\<rparr>"

definition clearChat :: "nat \<Rightarrow> nat \<Rightarrow> app \<Rightarrow> app" where
  "clearChat now date s =
     s\<lparr>messages :=
         [\<lparr>id_m = toString now, role = Bot,
           content = ''Chat cleared. How else can I help you?'',
           timestamp = date, image_m = None, sources = None\<rparr>]\<rparr>"

subsection \<open>\<open>handleSend\<close>, up to the first suspension\<close>

text \<open>Lines 67 to 73.\<close>

definition userMessage :: "send_env \<Rightarrow> app \<Rightarrow> message" where
  "userMessage env s =
     \<lparr>id_m = toString (now_user env),
      role = User,
      content =
        (if trim (input s) \<noteq> [] then trim (input s)
         else if js_truthy (selectedImage s) then ''Analyze this image'' else []),
      timestamp = date_user env,
      image_m = (if js_truthy (selectedImage s) then selectedImage s else None),
      sources = None\<rparr>"

text \<open>Lines 90 and 116 to 123: the image part, present when the image is truthy.\<close>

definition imageParts :: "string option \<Rightarrow> part list" where
  "imageParts img =
     (case img of
        None \<Rightarrow> []
      | Some d \<Rightarrow>
          (if d \<noteq> [] then [InlineData (index_opt (split_on CHR '','' d) 1) ''image/jpeg'']
           else []))"

text \<open>Lines 87 to 93.\<close>

definition historyTurn :: "message \<Rightarrow> turn" where
  "historyTurn msg =
     \<lparr>role_t = (if role msg = Bot then ''model'' else ''user''),
      parts = imageParts (image_m msg) @ [TextPart (content msg)]\<rparr>"

text \<open>Lines 115 to 124.\<close>

definition messageParts :: "message \<Rightarrow> part list" where
  "messageParts um = imageParts (image_m um) @ [TextPart (content um)]"

text \<open>Lines 154 to 167: the \<open>catch\<close> block followed by the \<open>finally\<close> block.\<close>

definition errorMessage :: "nat \<Rightarrow> nat \<Rightarrow> message" where
  "errorMessage now date =
     \<lparr>id_m = toString now, role = Bot,
      content = ''I'm sorry, I encountered an error. Please try again later.'',
      timestamp = date, image_m = None, sources = None\<rparr>"

definition catch_finally :: "nat \<Rightarrow> nat \<Rightarrow> app \<Rightarrow> app" where
  "catch_finally now date s =
     s\<lparr>messages := messages s @ [errorMessage now date],
       isLoading := False,
       task := None\<rparr>"

text \<open>Lines 104 to 113.\<close>

definition placeholder :: "send_env \<Rightarrow> message" where
  "placeholder env =
     \<lparr>id_m = toString (now_bot env + 1), role = Bot, content = [],
      timestamp = date_bot env, image_m = None, sources = None\<rparr>"

text \<open>
  Lines 64 to 128.  The handler reads \<open>messages\<close>, \<open>input\<close>, \<open>selectedImage\<close> and
  \<open>isLoading\<close> of the render it was created in, taken here to be the current state.
  The history is built from \<open>messages\<close> as read, not from the transcript with the user
  message appended.
\<close>

definition handleSend :: "send_env \<Rightarrow> app \<Rightarrow> app" where
  "handleSend env s =
     (if (trim (input s) = [] \<and> \<not> js_truthy (selectedImage s)) \<or> isLoading s then s
      else
        let um = userMessage env s;
            s1 = s\<lparr>messages := messages s @ [um], input := [],
                   selectedImage := None, isLoading := True\<rparr>
        in
          if \<not> js_truthy (apiKey env) then catch_finally (now_catch env) (date_catch env) s1
          else if \<not> client_ok env then catch_finally (now_catch env) (date_catch env) s1
          else
            let s2 = s1\<lparr>calls := calls s1 @
                         [ChatsCreate ''gemini-3.1-pro-preview'' (map historyTurn (messages s))]\<rparr>
            in
              if \<not> create_ok env then catch_finally (now_catch env) (date_catch env) s2
              else
                s2\<lparr>messages := messages s2 @ [placeholder env],
                   calls := calls s2 @ [SendMessageStream (messageParts um)],
                   task := Some \<lparr>botMessageId = toString (now_bot env + 1),
                                fullResponse = [], sources_run = []\<rparr>\<rparr>)"

subsection \<open>The streaming loop\<close>

text \<open>Lines 140 to 142.\<close>

definition newSources :: "gchunk list \<Rightarrow> source list" where
  "newSources gcs =
     map (\<lambda>c. \<lparr>uri = uri (the (web c)), title = title (the (web c))\<rparr>)
       (filter (\<lambda>c. web c \<noteq> None) gcs)"

text \<open>Line 145.\<close>

definition mergeSources :: "source list \<Rightarrow> source list \<Rightarrow> source list" where
  "mergeSources srcs new =
     js_filter (\<lambda>v i a. findIndex (\<lambda>t. uri t = uri v) a = int i) (srcs @ new)"

text \<open>Line 135: \<open>c.text || ''\<close>.\<close>

definition chunkText :: "chunk \<Rightarrow> string" where
  "chunkText c = (case text_c c of None \<Rightarrow> [] | Some t \<Rightarrow> t)"

text \<open>Lines 134 to 146: the effect of one chunk on \<open>fullResponse\<close> and \<open>sources\<close>.\<close>

definition consume :: "chunk \<Rightarrow> string \<times> source list \<Rightarrow> string \<times> source list" where
  "consume c acc =
     (fst acc @ chunkText c,
      (case groundingChunks c of
         None \<Rightarrow> snd acc
       | Some gcs \<Rightarrow> mergeSources (snd acc) (newSources gcs)))"

text \<open>
  The loop of lines 130 to 153 over the chunks received so far: the values of
  \<open>fullResponse\<close> and \<open>sources\<close> after them.
\<close>

definition consume_all :: "chunk list \<Rightarrow> string \<times> source list" where
  "consume_all cs = foldl (\<lambda>acc c. consume c acc) ([], []) cs"

text \<open>
  The citation records a chunk reports (lines 138 to 142), and those of a whole stream in
  the order of arrival.
\<close>

definition chunkSources :: "chunk \<Rightarrow> source list" where
  "chunkSources c = (case groundingChunks c of None \<Rightarrow> [] | Some gcs \<Rightarrow> newSources gcs)"

definition reported :: "chunk list \<Rightarrow> source list" where
  "reported cs = concat (map chunkSources cs)"

text \<open>Lines 148 to 152: the update of the transcript by id.\<close>

definition update_by_id :: "string \<Rightarrow> string \<Rightarrow> source list \<Rightarrow> message list \<Rightarrow> message list" where
  "update_by_id bid full srcs prev =
     map (\<lambda>msg. if id_m msg = bid
                then msg\<lparr>content := full,
                         sources := (if length srcs > 0 then Some srcs else None)\<rparr>
                else msg) prev"

text \<open>The handler resumes with the next chunk of the stream.\<close>

definition resume_chunk :: "chunk \<Rightarrow> app \<Rightarrow> app" where
  "resume_chunk c s =
     (case task s of
        None \<Rightarrow> s
      | Some t \<Rightarrow>
          let acc = consume c (fullResponse t, sources_run t)
          in s\<lparr>messages := update_by_id (botMessageId t) (fst acc) (snd acc) (messages s),
               task := Some (t\<lparr>fullResponse := fst acc, sources_run := snd acc\<rparr>)\<rparr>)"

text \<open>The stream is exhausted: the loop ends and the \<open>finally\<close> block runs.\<close>

definition resume_done :: "app \<Rightarrow> app" where
  "resume_done s =
     (case task s of
        None \<Rightarrow> s
      | Some t \<Rightarrow> s\<lparr>isLoading := False, task := None\<rparr>)"

text \<open>
  The awaited call or the stream throws (when the stream is opened or between two
  chunks): the \<open>catch\<close> block runs, reading the clock anew, then the \<open>finally\<close> block.
\<close>

definition resume_error :: "nat \<Rightarrow> nat \<Rightarrow> app \<Rightarrow> app" where
  "resume_error now date s =
     (case task s of
        None \<Rightarrow> s
      | Some t \<Rightarrow> catch_finally now date s)"

subsection \<open>Events of the component\<close>

datatype event =
    SetInput string
  | SetSelectedImage "string option"
  | ClickSend send_env
  | ClearChat nat nat
  | StreamChunk chunk
  | StreamDone
  | StreamError nat nat

fun step :: "event \<Rightarrow> app \<Rightarrow> app" where
  "step (SetInput v) s = s\<lparr>input := v\<rparr>"
| "step (SetSelectedImage v) s = s\<lparr>selectedImage := v\<rparr>"
| "step (ClickSend env) s = handleSend env s"
| "step (ClearChat now date) s = clearChat now date s"
| "step (StreamChunk c) s = resume_chunk c s"
| "step StreamDone s = resume_done s"
| "step (StreamError now date) s = resume_error now date s"

definition run :: "event list \<Rightarrow> app \<Rightarrow> app" where
  "run evs s = foldl (\<lambda>s e. step e s) s evs"

subsection \<open>Deduplication by uri, stated recursively\<close>

text \<open>
  The list of first occurrences: an entry is kept when its uri is not in the set \<open>S\<close> of
  uris already seen.  The merge of line 145 is compared with this function below.
\<close>

fun first_seen :: "string set \<Rightarrow> source list \<Rightarrow> source list" where
  "first_seen S [] = []"
| "first_seen S (v # vs) =
     (if uri v \<in> S then first_seen S vs else v # first_seen (insert (uri v) S) vs)"


subsection \<open>Data URLs\<close>

text \<open>
  The payload of a data URL \<open>data:<type>;base64,<payload>\<close>: what follows its first
  comma.  The expression \<open>split(',')[1]\<close> of lines 90 and 119 is compared with this
  function below.
\<close>

definition strip_data_url_prefix :: "string \<Rightarrow> string" where
  "strip_data_url_prefix d = tl (dropWhile (\<lambda>c. c \<noteq> CHR '','') d)"


subsection \<open>Events while a stream is open\<close>

text \<open>
  While the handler is suspended in its loop the user may type, pick or remove an image,
  clear the chat or press send, and chunks arrive; the stream has neither ended nor
  failed.  \<open>chunks_of\<close> lists the chunks among such events.
\<close>

fun while_streaming :: "event \<Rightarrow> bool" where
  "while_streaming StreamDone = False"
| "while_streaming (StreamError now date) = False"
| "while_streaming e = True"

fun chunks_of :: "event list \<Rightarrow> chunk list" where
  "chunks_of [] = []"
| "chunks_of (StreamChunk c # evs) = c # chunks_of evs"
| "chunks_of (e # evs) = chunks_of evs"


subsection \<open>Concrete inputs\<close>

text \<open>
  A clock reading of November 2023 in milliseconds; within one synchronous run of the
  handler every reading of the clock returns the same millisecond.
\<close>

definition env_ok :: send_env where
  "env_ok = \<lparr>now_user = 1700000000000, date_user = 1700000000000, apiKey = Some ''key'',
             client_ok = True, create_ok = True, now_bot = 1700000000000, date_bot = 1700000000000,
             now_catch = 1700000000000, date_catch = 1700000000000\<rparr>"

definition env_nokey :: send_env where
  "env_nokey = env_ok\<lparr>apiKey := None\<rparr>"

definition chunk_a :: chunk where
  "chunk_a = \<lparr>text_c = Some ''a'',
       groundingChunks = Some [\<lparr>web = Some \<lparr>uri = ''u'', title = ''First''\<rparr>\<rparr>]\<rparr>"

definition chunk_b :: chunk where
  "chunk_b = \<lparr>text_c = Some ''b'',
       groundingChunks = Some [\<lparr>web = Some \<lparr>uri = ''u'', title = ''Second''\<rparr>\<rparr>]\<rparr>"

text \<open>
  A send is in flight and the user has typed again; a stream has just been opened; a first
  exchange with an image is complete and the user has typed the next question.
\<close>

definition busy :: app where
  "busy = run [SetInput ''hi'', ClickSend env_ok, SetInput ''again''] (init 0)"

definition streaming :: app where
  "streaming = run [SetInput ''hi'', ClickSend env_ok] (init 0)"

definition second_turn :: app where
  "second_turn =
     run [SetSelectedImage (Some ''data:image/png;base64,AAAA''), ClickSend env_ok,
          StreamChunk chunk_a, StreamDone, SetInput ''next''] (init 0)"


section \<open>Properties\<close>

subsection \<open>Evaluation on concrete inputs\<close>

lemmas send_defs = handleSend_def Let_def catch_finally_def userMessage_def errorMessage_def
  placeholder_def messageParts_def imageParts_def historyTurn_def index_opt_def js_truthy_def

lemmas stream_defs = resume_chunk_def resume_done_def resume_error_def consume_def
  update_by_id_def chunkText_def mergeSources_def newSources_def js_filter_def findIndex_def

lemma digit_chars:
  "char_of (48 :: nat) = CHR ''0''" "char_of (49 :: nat) = CHR ''1''"
  "char_of (50 :: nat) = CHR ''2''" "char_of (51 :: nat) = CHR ''3''"
  "char_of (52 :: nat) = CHR ''4''" "char_of (53 :: nat) = CHR ''5''"
  "char_of (54 :: nat) = CHR ''6''" "char_of (55 :: nat) = CHR ''7''"
  "char_of (56 :: nat) = CHR ''8''" "char_of (57 :: nat) = CHR ''9''"
  by code_simp+

lemma toString_example:
  "toString 1700000000000 = ''1700000000000''"
  "toString 1700000000001 = ''1700000000001''"
  by (simp_all add: toString.simps digit_chars)

lemma trim_blank: "trim ''  '' = []" "trim [] = []" "trim ''hi'' = ''hi''"
  by (simp_all add: trim_def is_ws_def)

lemmas eval_defs = run_def init_def env_ok_def env_nokey_def chunk_a_def chunk_b_def trim_def
  is_ws_def send_defs toString_example stream_defs

subsection \<open>Runs of the component\<close>

lemma run_Nil: "run [] s = s"
  by (simp add: run_def)

lemma run_Cons: "run (e # evs) s = run evs (step e s)"
  by (simp add: run_def)

lemma run_snoc: "run (evs @ [e]) s = step e (run evs s)"
  by (simp add: run_def)

lemma run_invariant:
  assumes "P s" and "\<And>e s. P s \<Longrightarrow> P (step e s)"
  shows "P (run evs s)"
  using assms by (induction evs rule: rev_induct) (simp_all add: run_Nil run_snoc)

text \<open>
  A suspended handler exists only while \<open>isLoading\<close> is set, so the guard of line 65
  refuses every send while one is suspended: no second handler is ever started beside it.
\<close>

lemma task_loading_step: "(task s \<noteq> None \<longrightarrow> isLoading s) \<Longrightarrow>
    (task (step e s) \<noteq> None \<longrightarrow> isLoading (step e s))"
  by (cases e)
    (auto simp: handleSend_def Let_def catch_finally_def clearChat_def resume_chunk_def
      resume_done_def resume_error_def split: option.splits)

lemma task_loading: "task (run evs (init date)) \<noteq> None \<longrightarrow> isLoading (run evs (init date))"
  by (rule run_invariant) (simp add: init_def, rule task_loading_step)

subsection \<open>The merge of citation sources\<close>

lemma findIndex_from_skip:
  "\<forall>t\<in>set pre. \<not> p t \<Longrightarrow> findIndex_from p k (pre @ xs) = findIndex_from p (k + length pre) xs"
  by (induction pre arbitrary: k) auto

lemma findIndex_from_hit:
  "\<exists>t\<in>set pre. p t \<Longrightarrow> findIndex_from p k (pre @ xs) < int (k + length pre)"
proof (induction pre arbitrary: k)
  case Nil
  then show ?case by simp
next
  case (Cons a pre)
  show ?case
  proof (cases "p a")
    case True
    then show ?thesis by simp
  next
    case False
    with Cons.prems have "\<exists>t\<in>set pre. p t" by auto
    from Cons.IH [OF this, of "Suc k"] False show ?thesis by simp
  qed
qed

lemma findIndex_first:
  assumes "p v"
  shows "findIndex p (pre @ v # vs) = int (length pre) \<longleftrightarrow> (\<forall>t\<in>set pre. \<not> p t)"
proof (cases "\<exists>t\<in>set pre. p t")
  case True
  from findIndex_from_hit [OF True, of 0 "v # vs"] True show ?thesis
    by (auto simp: findIndex_def)
next
  case False
  then have "\<forall>t\<in>set pre. \<not> p t" by blast
  from findIndex_from_skip [OF this, of 0 "v # vs"] assms False show ?thesis
    by (simp add: findIndex_def)
qed

lemma filter_from_first_seen:
  "filter_from (\<lambda>v i a. findIndex (\<lambda>t. uri t = uri v) a = int i) (pre @ vs) (length pre) vs
     = first_seen (uri ` set pre) vs"
proof (induction vs arbitrary: pre)
  case Nil
  then show ?case by simp
next
  case (Cons v vs)
  have hit: "findIndex (\<lambda>t. uri t = uri v) (pre @ v # vs) = int (length pre)
               \<longleftrightarrow> uri v \<notin> uri ` set pre"
    using findIndex_first [of "\<lambda>t. uri t = uri v" v pre vs] by (auto simp: image_iff)
  have step: "filter_from (\<lambda>v i a. findIndex (\<lambda>t. uri t = uri v) a = int i)
                 (pre @ v # vs) (Suc (length pre)) vs
               = first_seen (insert (uri v) (uri ` set pre)) vs"
    using Cons.IH [of "pre @ [v]"] by simp
  show ?case
    using hit step by (simp add: insert_absorb)
qed

lemma mergeSources_first_seen: "mergeSources srcs new = first_seen {} (srcs @ new)"
  using filter_from_first_seen [of "[]" "srcs @ new"]
  by (simp add: mergeSources_def js_filter_def)

lemma first_seen_append:
  "first_seen S (xs @ ys) = first_seen S xs @ first_seen (S \<union> uri ` set xs) ys"
  by (induction xs arbitrary: S) (auto simp: insert_absorb)

lemma first_seen_uri_set: "uri ` set (first_seen S xs) = uri ` set xs - S"
  by (induction xs arbitrary: S) auto

lemma first_seen_uris: "S \<union> uri ` set (first_seen S xs) = S \<union> uri ` set xs"
  by (auto simp: first_seen_uri_set)

lemma first_seen_disjoint: "uri ` set (first_seen S xs) \<inter> S = {}"
  by (induction xs arbitrary: S) auto

lemma first_seen_distinct: "distinct (map uri (first_seen S xs))"
proof (induction xs arbitrary: S)
  case Nil
  then show ?case by simp
next
  case (Cons v vs)
  then show ?case
    using first_seen_disjoint [of "insert (uri v) S" vs] by auto
qed

lemma first_seen_fixed:
  "distinct (map uri xs) \<Longrightarrow> uri ` set xs \<inter> S = {} \<Longrightarrow> first_seen S xs = xs"
  by (induction xs arbitrary: S) auto

lemma first_seen_idem: "first_seen S (first_seen S xs) = first_seen S xs"
  by (rule first_seen_fixed [OF first_seen_distinct first_seen_disjoint])

lemma first_seen_merge:
  "first_seen {} (first_seen {} xs @ ys) = first_seen {} (xs @ ys)"
  using first_seen_uris [of "{}" xs] by (simp add: first_seen_append first_seen_idem)

lemma first_seen_find:
  "s \<in> set (first_seen S xs) \<Longrightarrow> find (\<lambda>t. uri t = uri s) xs = Some s"
proof (induction xs arbitrary: S)
  case Nil
  then show ?case by simp
next
  case (Cons v vs)
  show ?case
  proof (cases "uri v = uri s")
    case True
    with Cons.prems first_seen_disjoint [of "insert (uri v) S" vs]
      first_seen_disjoint [of S vs] show ?thesis
      by (auto split: if_splits)
  next
    case False
    with Cons show ?thesis by (auto split: if_splits)
  qed
qed

lemma first_seen_index:
  "first_seen S xs =
     map (nth xs) (filter (\<lambda>i. uri (xs ! i) \<notin> S \<and> (\<forall>j<i. uri (xs ! j) \<noteq> uri (xs ! i))) [0..<length xs])"
proof (induction xs arbitrary: S)
  case Nil
  then show ?case by simp
next
  case (Cons v vs)
  have upt: "[0..<length (v # vs)] = 0 # map Suc [0..<length vs]"
    by (simp add: upt_conv_Cons map_Suc_upt del: upt_Suc)
  have all: "\<And>i P. (\<forall>j<Suc i. P j) \<longleftrightarrow> P 0 \<and> (\<forall>j<i. P (Suc j))"
    by (auto simp: less_Suc_eq_0_disj)
  have pred: "(\<lambda>i. uri (vs ! i) \<notin> insert (uri v) S \<and> (\<forall>j<i. uri (vs ! j) \<noteq> uri (vs ! i)))
      = (\<lambda>i. uri (vs ! i) \<notin> S \<and> uri v \<noteq> uri (vs ! i) \<and> (\<forall>j<i. uri (vs ! j) \<noteq> uri (vs ! i)))"
    by auto
  have pred': "uri v \<in> S \<Longrightarrow>
      (\<lambda>i. uri (vs ! i) \<notin> S \<and> (\<forall>j<i. uri (vs ! j) \<noteq> uri (vs ! i)))
      = (\<lambda>i. uri (vs ! i) \<notin> S \<and> uri v \<noteq> uri (vs ! i) \<and> (\<forall>j<i. uri (vs ! j) \<noteq> uri (vs ! i)))"
    by auto
  show ?case
  proof (cases "uri v \<in> S")
    case True
    then show ?thesis
      unfolding upt using pred' [OF True]
      by (simp add: Cons.IH filter_map comp_def all)
  next
    case False
    then show ?thesis
      unfolding upt
      by (simp add: Cons.IH [of "insert (uri v) S"] pred filter_map comp_def all del: insert_iff)
  qed
qed

lemma consume_snd_first_seen:
  "snd (consume c (f, first_seen {} xs)) = first_seen {} (xs @ chunkSources c)"
  by (simp add: consume_def chunkSources_def mergeSources_first_seen first_seen_merge
      split: option.splits)

lemma foldl_consume_snd:
  "snd (foldl (\<lambda>acc c. consume c acc) (f, first_seen {} xs) cs)
     = first_seen {} (xs @ concat (map chunkSources cs))"
proof (induction cs arbitrary: f xs)
  case Nil
  then show ?case by simp
next
  case (Cons c cs)
  have "consume c (f, first_seen {} xs)
          = (f @ chunkText c, first_seen {} (xs @ chunkSources c))"
    using consume_snd_first_seen [of c f xs] by (simp add: consume_def prod_eq_iff)
  then show ?case
    using Cons.IH [of "f @ chunkText c" "xs @ chunkSources c"] by simp
qed

lemma consume_all_sources: "snd (consume_all cs) = first_seen {} (reported cs)"
  using foldl_consume_snd [of "[]" "[]" cs] by (simp add: consume_all_def reported_def)

lemma foldl_consume_fst:
  "fst (foldl (\<lambda>acc c. consume c acc) (f, xs) cs) = f @ concat (map chunkText cs)"
  by (induction cs arbitrary: f xs) (simp_all add: consume_def)

lemma consume_all_text: "fst (consume_all cs) = concat (map chunkText cs)"
  using foldl_consume_fst [of "[]" "[]" cs] by (simp add: consume_all_def)

text \<open>
  Claim C1.  Whatever chunks the stream delivers, the \<open>sources\<close> list of the loop after
  them holds every reported uri exactly once; the entry kept for a uri is the first record
  reported with it (so its title is the first title); and the entries stand in the order
  of their first report: the list is the list of the records at those positions of the
  reported sequence at which a uri occurs for the first time.
\<close>

theorem sources_first_seen:
  "distinct (map uri (snd (consume_all cs)))
   \<and> uri ` set (snd (consume_all cs)) = uri ` set (reported cs)
   \<and> (\<forall>s\<in>set (snd (consume_all cs)). find (\<lambda>t. uri t = uri s) (reported cs) = Some s)
   \<and> snd (consume_all cs) =
       map (nth (reported cs))
         (filter (\<lambda>i. \<forall>j<i. uri (reported cs ! j) \<noteq> uri (reported cs ! i))
            [0..<length (reported cs)])"
proof -
  have a: "distinct (map uri (snd (consume_all cs)))"
    by (simp add: consume_all_sources first_seen_distinct)
  have b: "uri ` set (snd (consume_all cs)) = uri ` set (reported cs)"
    by (simp add: consume_all_sources first_seen_uri_set)
  have c: "\<forall>s\<in>set (snd (consume_all cs)). find (\<lambda>t. uri t = uri s) (reported cs) = Some s"
    by (simp add: consume_all_sources first_seen_find)
  have d: "snd (consume_all cs) =
       map (nth (reported cs))
         (filter (\<lambda>i. \<forall>j<i. uri (reported cs ! j) \<noteq> uri (reported cs ! i))
            [0..<length (reported cs)])"
    using first_seen_index [of "{}" "reported cs"] by (simp add: consume_all_sources)
  from a b c d show ?thesis by blast
qed

text \<open>
  Two chunks report the same uri under different titles: one entry, with the first title.
\<close>

theorem sources_first_seen_witness:
  "snd (consume_all
     [\<lparr>text_c = Some ''a'',
       groundingChunks = Some [\<lparr>web = Some \<lparr>uri = ''u'', title = ''First''\<rparr>\<rparr>]\<rparr>,
      \<lparr>text_c = Some ''b'',
       groundingChunks = Some [\<lparr>web = Some \<lparr>uri = ''u'', title = ''Second''\<rparr>\<rparr>]\<rparr>])
     = [\<lparr>uri = ''u'', title = ''First''\<rparr>]
   \<and> reported
     [\<lparr>text_c = Some ''a'',
       groundingChunks = Some [\<lparr>web = Some \<lparr>uri = ''u'', title = ''First''\<rparr>\<rparr>]\<rparr>,
      \<lparr>text_c = Some ''b'',
       groundingChunks = Some [\<lparr>web = Some \<lparr>uri = ''u'', title = ''Second''\<rparr>\<rparr>]\<rparr>]
     = [\<lparr>uri = ''u'', title = ''First''\<rparr>, \<lparr>uri = ''u'', title = ''Second''\<rparr>]"
  using sources_first_seen
    [of "[\<lparr>text_c = Some ''a'',
       groundingChunks = Some [\<lparr>web = Some \<lparr>uri = ''u'', title = ''First''\<rparr>\<rparr>]\<rparr>,
      \<lparr>text_c = Some ''b'',
       groundingChunks = Some [\<lparr>web = Some \<lparr>uri = ''u'', title = ''Second''\<rparr>\<rparr>]\<rparr>]"]
  by (simp add: consume_all_def consume_def reported_def chunkSources_def newSources_def
      mergeSources_def js_filter_def findIndex_def chunkText_def)

subsection \<open>The history passed to the chat session\<close>

lemma split_on_nonempty: "split_on c xs \<noteq> []"
  by (induction xs) (auto split: list.splits)

lemma split_on_none: "c \<notin> set xs \<Longrightarrow> split_on c xs = [xs]"
  by (induction xs) auto

lemma split_on_first:
  "c \<notin> set pre \<Longrightarrow> split_on c (pre @ c # post) = pre # split_on c post"
proof (induction pre)
  case Nil
  then show ?case using split_on_nonempty [of c post] by (cases "split_on c post") auto
next
  case (Cons a pre)
  then show ?case by auto
qed

lemma dropWhile_first:
  "c \<notin> set pre \<Longrightarrow> dropWhile (\<lambda>x. x \<noteq> c) (pre @ c # post) = c # post"
  by (induction pre) auto

lemma data_url_payload:
  assumes "count_list d CHR '','' = 1"
  shows "index_opt (split_on CHR '','' d) 1 = Some (strip_data_url_prefix d)"
proof -
  from assms have "CHR '','' \<in> set d"
    by (metis count_list_0_iff zero_neq_one)
  then obtain pre post where d: "d = pre @ CHR '','' # post" and pre: "CHR '','' \<notin> set pre"
    by (auto dest: split_list_first)
  from assms d pre have "count_list post CHR '','' = 0"
    by (simp add: count_list_0_iff)
  then have post: "CHR '','' \<notin> set post"
    by (simp add: count_list_0_iff)
  have "split_on CHR '','' d = [pre, post]"
    using split_on_first [OF pre, of post] split_on_none [OF post] d by simp
  moreover have "strip_data_url_prefix d = post"
    using dropWhile_first [OF pre, of post] by (simp add: strip_data_url_prefix_def d)
  ultimately show ?thesis
    by (simp add: index_opt_def)
qed

lemma historyTurn_data_url:
  assumes "\<forall>d. image_m m = Some d \<longrightarrow> count_list d CHR '','' = 1"
  shows "role_t (historyTurn m) = (if role m = Bot then ''model'' else ''user'')
         \<and> parts (historyTurn m) =
             (case image_m m of
                None \<Rightarrow> [TextPart (content m)]
              | Some d \<Rightarrow> [InlineData (Some (strip_data_url_prefix d)) ''image/jpeg'',
                            TextPart (content m)])"
proof (cases "image_m m")
  case None
  then show ?thesis by (simp add: historyTurn_def imageParts_def)
next
  case (Some d)
  with assms have c: "count_list d CHR '','' = 1" by simp
  then have "d \<noteq> []" by auto
  with Some data_url_payload [OF c] show ?thesis
    by (simp add: historyTurn_def imageParts_def)
qed

text \<open>
  Claim C2.  A send that passes the guard with an API key configured creates the chat
  session with a history of exactly one turn per message of the transcript as it was
  before this send, in the same order; the user message of this send is appended to the
  transcript but is not part of the history.  A turn carries the role \<open>model\<close> for a bot
  message and \<open>user\<close> otherwise, and its parts are the text of the message, preceded,
  when the message has an image, by the payload of the image's data URL (what follows
  the comma) under the MIME type \<open>image/jpeg\<close>.  Images are data URLs with one comma, as
  the file reader of line 60 produces them.
\<close>

theorem history_serialization:
  assumes "trim (input s) \<noteq> [] \<or> js_truthy (selectedImage s)" and "\<not> isLoading s"
    and "js_truthy (apiKey env)" and "client_ok env"
    and "\<forall>m\<in>set (messages s). \<forall>d. image_m m = Some d \<longrightarrow> count_list d CHR '','' = 1"
  shows "\<exists>hist rest.
           calls (handleSend env s) = calls s @ ChatsCreate ''gemini-3.1-pro-preview'' hist # rest
           \<and> take (Suc (length (messages s))) (messages (handleSend env s))
               = messages s @ [userMessage env s]
           \<and> length hist = length (messages s)
           \<and> (\<forall>i<length (messages s).
                 role_t (hist ! i) = (if role (messages s ! i) = Bot then ''model'' else ''user'')
                 \<and> parts (hist ! i) =
                     (case image_m (messages s ! i) of
                        None \<Rightarrow> [TextPart (content (messages s ! i))]
                      | Some d \<Rightarrow> [InlineData (Some (strip_data_url_prefix d)) ''image/jpeg'',
                                    TextPart (content (messages s ! i))]))"
proof -
  let ?hist = "map historyTurn (messages s)"
  have calls: "\<exists>rest. calls (handleSend env s)
                  = calls s @ ChatsCreate ''gemini-3.1-pro-preview'' ?hist # rest"
    using assms(1-4) by (auto simp: handleSend_def Let_def catch_finally_def)
  have msgs: "take (Suc (length (messages s))) (messages (handleSend env s))
               = messages s @ [userMessage env s]"
    using assms(1-4) by (auto simp: handleSend_def Let_def catch_finally_def)
  have turns: "\<forall>i<length (messages s).
                 role_t (?hist ! i) = (if role (messages s ! i) = Bot then ''model'' else ''user'')
                 \<and> parts (?hist ! i) =
                     (case image_m (messages s ! i) of
                        None \<Rightarrow> [TextPart (content (messages s ! i))]
                      | Some d \<Rightarrow> [InlineData (Some (strip_data_url_prefix d)) ''image/jpeg'',
                                    TextPart (content (messages s ! i))])"
  proof (intro allI impI)
    fix i assume i: "i < length (messages s)"
    then have "messages s ! i \<in> set (messages s)" by simp
    with assms(5) have "\<forall>d. image_m (messages s ! i) = Some d \<longrightarrow> count_list d CHR '','' = 1"
      by blast
    from historyTurn_data_url [OF this] i
    show "role_t (?hist ! i) = (if role (messages s ! i) = Bot then ''model'' else ''user'')
                 \<and> parts (?hist ! i) =
                     (case image_m (messages s ! i) of
                        None \<Rightarrow> [TextPart (content (messages s ! i))]
                      | Some d \<Rightarrow> [InlineData (Some (strip_data_url_prefix d)) ''image/jpeg'',
                                    TextPart (content (messages s ! i))])"
      by simp
  qed
  from calls msgs turns show ?thesis
    by (intro exI [of _ ?hist]) auto
qed

theorem history_serialization_witness:
  "calls (handleSend env_ok second_turn) ! 2
     = ChatsCreate ''gemini-3.1-pro-preview''
         [\<lparr>role_t = ''model'',
           parts = [TextPart ''Hello! I'm your Gemini-powered assistant. How can I help you today?'']\<rparr>,
          \<lparr>role_t = ''user'',
           parts = [InlineData (Some ''AAAA'') ''image/jpeg'', TextPart ''Analyze this image'']\<rparr>,
          \<lparr>role_t = ''model'', parts = [TextPart ''a'']\<rparr>]
   \<and> length (messages (handleSend env_ok second_turn)) = 5
   \<and> strip_data_url_prefix ''data:image/png;base64,AAAA'' = ''AAAA''"
  using history_serialization [of second_turn env_ok]
  by (simp add: second_turn_def eval_defs strip_data_url_prefix_def)

subsection \<open>The guard of \<open>handleSend\<close>\<close>

text \<open>
  Claim C3.  A send requested while the trimmed input is empty and no image is attached,
  or while a send is in flight, changes nothing: the transcript, the pending input and
  image, the \<open>isLoading\<close> flag and the calls made are as before.
\<close>

theorem send_noop:
  "(trim (input s) = [] \<and> \<not> js_truthy (selectedImage s)) \<or> isLoading s
     \<Longrightarrow> handleSend env s = s \<and> step (ClickSend env) s = s"
  by (simp add: handleSend_def)

theorem send_noop_witness:
  "handleSend env_ok ((init 0)\<lparr>input := ''  ''\<rparr>) = (init 0)\<lparr>input := ''  ''\<rparr>
   \<and> handleSend env_ok ((init 0)\<lparr>input := ''hi'', isLoading := True\<rparr>)
       = (init 0)\<lparr>input := ''hi'', isLoading := True\<rparr>
   \<and> trim ''  '' = []
   \<and> selectedImage (init 0) = None"
  using send_noop [of "(init 0)\<lparr>input := ''  ''\<rparr>" env_ok]
    send_noop [of "(init 0)\<lparr>input := ''hi'', isLoading := True\<rparr>" env_ok]
  by (simp add: trim_blank init_def js_truthy_def)

subsection \<open>Failures\<close>

text \<open>
  Claim C4, as amended.  An error while the session is created or while the stream is
  opened or consumed appends a new bot message with the fixed apology, leaves every
  message already in the transcript as it is (the empty placeholder included) and clears
  \<open>isLoading\<close>; the end of the stream clears \<open>isLoading\<close> too and leaves the transcript as it
  is.  A send refused by the guard of line 65 returns before the \<open>try\<close> block and leaves
  \<open>isLoading\<close> as it was.
\<close>

theorem error_paths:
  "(task s = Some t \<longrightarrow>
      messages (resume_error now date s) = messages s @ [errorMessage now date]
      \<and> \<not> isLoading (resume_error now date s))
   \<and> ((trim (input s) \<noteq> [] \<or> js_truthy (selectedImage s)) \<and> \<not> isLoading s
        \<and> (\<not> js_truthy (apiKey env) \<or> \<not> client_ok env \<or> \<not> create_ok env) \<longrightarrow>
      messages (handleSend env s)
        = messages s @ [userMessage env s, errorMessage (now_catch env) (date_catch env)]
      \<and> \<not> isLoading (handleSend env s))
   \<and> ((trim (input s) \<noteq> [] \<or> js_truthy (selectedImage s)) \<and> \<not> isLoading s
        \<and> js_truthy (apiKey env) \<and> client_ok env \<and> create_ok env \<longrightarrow>
      messages (resume_error now date (handleSend env s))
        = messages s @ [userMessage env s, placeholder env, errorMessage now date]
      \<and> content (placeholder env) = []
      \<and> \<not> isLoading (resume_error now date (handleSend env s)))
   \<and> (task s = Some t \<longrightarrow>
      messages (resume_done s) = messages s \<and> \<not> isLoading (resume_done s))
   \<and> ((trim (input s) = [] \<and> \<not> js_truthy (selectedImage s)) \<or> isLoading s \<longrightarrow>
      isLoading (handleSend env s) = isLoading s)
   \<and> role (errorMessage now date) = Bot
   \<and> content (errorMessage now date)
       = ''I'm sorry, I encountered an error. Please try again later.''"
  by (auto simp: handleSend_def Let_def catch_finally_def resume_error_def resume_done_def
      errorMessage_def placeholder_def)

theorem error_paths_witness:
  "messages (resume_error 1700000000500 1700000000500 streaming)
     = messages streaming @ [errorMessage 1700000000500 1700000000500]
   \<and> length (messages (resume_error 1700000000500 1700000000500 streaming)) = 4
   \<and> \<not> isLoading (resume_error 1700000000500 1700000000500 streaming)
   \<and> content (messages (resume_error 1700000000500 1700000000500 streaming) ! 2) = []
   \<and> length (messages (handleSend env_nokey ((init 0)\<lparr>input := ''hi''\<rparr>))) = 3
   \<and> \<not> isLoading (handleSend env_nokey ((init 0)\<lparr>input := ''hi''\<rparr>))
   \<and> messages (resume_done streaming) = messages streaming
   \<and> \<not> isLoading (resume_done streaming)
   \<and> isLoading busy \<and> isLoading (handleSend env_ok busy)"
  using error_paths [where s = streaming and now = 1700000000500 and date = 1700000000500
      and env = env_ok
      and t = "\<lparr>botMessageId = ''1700000000001'', fullResponse = [], sources_run = []\<rparr>"]
    error_paths [where s = "(init 0)\<lparr>input := ''hi''\<rparr>" and env = env_nokey]
    error_paths [where s = busy and env = env_ok]
  by (simp add: streaming_def busy_def eval_defs errorMessage_def)

text \<open>
  The flag is not cleared on every exit: a send refused because another one is in flight
  returns with \<open>isLoading\<close> still set.
\<close>

theorem flag_not_cleared_counterexample:
  "isLoading busy \<and> trim (input busy) = ''again'' \<and> handleSend env_ok busy = busy
   \<and> isLoading (handleSend env_ok busy)"
  by (simp add: busy_def run_def init_def env_ok_def trim_def is_ws_def send_defs)

text \<open>
  Claim C5.  Without an API key a send that passes the guard appends the user message
  and the apology and nothing else (no placeholder), makes no call to the SDK and leaves
  \<open>isLoading\<close> cleared.
\<close>

theorem missing_key:
  assumes "trim (input s) \<noteq> [] \<or> js_truthy (selectedImage s)" and "\<not> isLoading s"
    and "\<not> js_truthy (apiKey env)"
  shows "messages (handleSend env s)
           = messages s @ [userMessage env s, errorMessage (now_catch env) (date_catch env)]
         \<and> role (userMessage env s) = User
         \<and> role (errorMessage (now_catch env) (date_catch env)) = Bot
         \<and> content (errorMessage (now_catch env) (date_catch env))
             = ''I'm sorry, I encountered an error. Please try again later.''
         \<and> calls (handleSend env s) = calls s
         \<and> \<not> isLoading (handleSend env s)"
  using assms
  by (auto simp: handleSend_def Let_def catch_finally_def userMessage_def errorMessage_def)

theorem missing_key_witness:
  "length (messages (handleSend env_nokey ((init 0)\<lparr>input := ''hi''\<rparr>))) = 3
   \<and> map content (messages (handleSend env_nokey ((init 0)\<lparr>input := ''hi''\<rparr>)))
       = [''Hello! I'm your Gemini-powered assistant. How can I help you today?'', ''hi'',
          ''I'm sorry, I encountered an error. Please try again later.'']
   \<and> calls (handleSend env_nokey ((init 0)\<lparr>input := ''hi''\<rparr>)) = []"
  using missing_key [of "(init 0)\<lparr>input := ''hi''\<rparr>" env_nokey]
  by (simp add: trim_blank init_def js_truthy_def env_nokey_def env_ok_def userMessage_def
      errorMessage_def)

subsection \<open>Streaming\<close>

lemma consume_all_snoc_text:
  "fst (consume_all (cs @ [c])) = fst (consume_all cs) @ chunkText c"
  by (simp add: consume_all_def consume_def)

lemma consume_all_snoc_sources:
  "prefix (snd (consume_all cs)) (snd (consume_all (cs @ [c])))"
  by (simp add: consume_all_sources reported_def first_seen_append)

lemma handleSend_streams:
  assumes "trim (input s) \<noteq> [] \<or> js_truthy (selectedImage s)" and "\<not> isLoading s"
    and "js_truthy (apiKey env)" and "client_ok env" and "create_ok env"
  shows "messages (handleSend env s) = messages s @ [userMessage env s, placeholder env]"
    and "task (handleSend env s)
           = Some \<lparr>botMessageId = id_m (placeholder env), fullResponse = [], sources_run = []\<rparr>"
    and "calls (handleSend env s)
           = calls s @ [ChatsCreate ''gemini-3.1-pro-preview'' (map historyTurn (messages s)),
                        SendMessageStream (messageParts (userMessage env s))]"
    and "isLoading (handleSend env s)"
  using assms by (auto simp: handleSend_def Let_def placeholder_def)

lemma run_streaming_task:
  "task s = Some t \<Longrightarrow> isLoading s \<Longrightarrow> list_all while_streaming evs \<Longrightarrow>
     isLoading (run evs s) \<and>
     task (run evs s)
       = Some (t\<lparr>fullResponse :=
                   fst (foldl (\<lambda>acc c. consume c acc) (fullResponse t, sources_run t) (chunks_of evs)),
                 sources_run :=
                   snd (foldl (\<lambda>acc c. consume c acc) (fullResponse t, sources_run t) (chunks_of evs))\<rparr>)"
proof (induction evs arbitrary: s t)
  case Nil
  then show ?case by (simp add: run_Nil)
next
  case (Cons e evs)
  show ?case
  proof (cases e)
    case (StreamChunk c)
    let ?acc = "consume c (fullResponse t, sources_run t)"
    let ?t1 = "t\<lparr>fullResponse := fst ?acc, sources_run := snd ?acc\<rparr>"
    have "task (step e s) = Some ?t1" "isLoading (step e s)"
      using Cons.prems StreamChunk by (simp_all add: resume_chunk_def Let_def)
    from Cons.IH [OF this] Cons.prems(3) StreamChunk show ?thesis
      by (simp add: run_Cons)
  next
    case (ClickSend env)
    then have "step e s = s"
      using Cons.prems(2) by (simp add: handleSend_def)
    with Cons.IH [OF Cons.prems(1,2)] Cons.prems(3) ClickSend show ?thesis
      by (simp add: run_Cons)
  next
    case (SetInput v)
    then have "task (step e s) = Some t" "isLoading (step e s)"
      using Cons.prems by simp_all
    from Cons.IH [OF this] Cons.prems(3) SetInput show ?thesis
      by (simp add: run_Cons)
  next
    case (SetSelectedImage v)
    then have "task (step e s) = Some t" "isLoading (step e s)"
      using Cons.prems by simp_all
    from Cons.IH [OF this] Cons.prems(3) SetSelectedImage show ?thesis
      by (simp add: run_Cons)
  next
    case (ClearChat now date)
    then have "task (step e s) = Some t" "isLoading (step e s)"
      using Cons.prems by (simp_all add: clearChat_def)
    from Cons.IH [OF this] Cons.prems(3) ClearChat show ?thesis
      by (simp add: run_Cons)
  next
    case StreamDone
    with Cons.prems(3) show ?thesis by simp
  next
    case (StreamError now date)
    with Cons.prems(3) show ?thesis by simp
  qed
qed

text \<open>
  Claim C6.  The placeholder is appended with empty content and no sources.  Whatever the
  user does while the stream is open, each chunk writes to the messages carrying the
  placeholder's id the text and the sources accumulated over all chunks received so far;
  the accumulated text after a chunk is the text before it followed by the chunk's text,
  and the accumulated sources after a chunk extend the sources before it at the end.
\<close>

theorem streaming_grows:
  assumes "trim (input s) \<noteq> [] \<or> js_truthy (selectedImage s)" and "\<not> isLoading s"
    and "js_truthy (apiKey env)" and "client_ok env" and "create_ok env"
    and "list_all while_streaming evs"
  shows "messages (handleSend env s) = messages s @ [userMessage env s, placeholder env]
         \<and> content (placeholder env) = [] \<and> sources (placeholder env) = None
         \<and> messages (step (StreamChunk c) (run evs (handleSend env s)))
             = update_by_id (id_m (placeholder env))
                 (fst (consume_all (chunks_of evs @ [c])))
                 (snd (consume_all (chunks_of evs @ [c])))
                 (messages (run evs (handleSend env s)))
         \<and> fst (consume_all []) = [] \<and> snd (consume_all []) = []
         \<and> fst (consume_all (cs @ [c])) = fst (consume_all cs) @ chunkText c
         \<and> prefix (fst (consume_all cs)) (fst (consume_all (cs @ [c])))
         \<and> prefix (snd (consume_all cs)) (snd (consume_all (cs @ [c])))"
proof -
  note st = handleSend_streams [OF assms(1-5)]
  have "task (run evs (handleSend env s))
          = Some \<lparr>botMessageId = id_m (placeholder env),
                  fullResponse = fst (consume_all (chunks_of evs)),
                  sources_run = snd (consume_all (chunks_of evs))\<rparr>"
    using run_streaming_task [OF st(2) st(4) assms(6)] by (simp add: consume_all_def)
  then have "messages (step (StreamChunk c) (run evs (handleSend env s)))
             = update_by_id (id_m (placeholder env))
                 (fst (consume_all (chunks_of evs @ [c])))
                 (snd (consume_all (chunks_of evs @ [c])))
                 (messages (run evs (handleSend env s)))"
    by (simp add: resume_chunk_def Let_def consume_all_def)
  moreover have "fst (consume_all (cs @ [c])) = fst (consume_all cs) @ chunkText c"
    by (rule consume_all_snoc_text)
  moreover have "fst (consume_all []) = [] \<and> snd (consume_all []) = []"
    by (simp add: consume_all_def)
  moreover have "content (placeholder env) = [] \<and> sources (placeholder env) = None"
    by (simp add: placeholder_def)
  ultimately show ?thesis
    using st(1) consume_all_snoc_sources [of cs c] by simp
qed

theorem streaming_grows_witness:
  "map content (messages (run [StreamChunk chunk_a, SetInput ''x'', StreamChunk chunk_b]
       (handleSend env_ok ((init 0)\<lparr>input := ''hi''\<rparr>))))
     = [''Hello! I'm your Gemini-powered assistant. How can I help you today?'', ''hi'', ''ab'']
   \<and> map sources (messages (run [StreamChunk chunk_a, SetInput ''x'', StreamChunk chunk_b]
       (handleSend env_ok ((init 0)\<lparr>input := ''hi''\<rparr>))))
     = [None, None, Some [\<lparr>uri = ''u'', title = ''First''\<rparr>]]
   \<and> consume_all [chunk_a] = (''a'', [\<lparr>uri = ''u'', title = ''First''\<rparr>])
   \<and> consume_all [chunk_a, chunk_b] = (''ab'', [\<lparr>uri = ''u'', title = ''First''\<rparr>])"
  using streaming_grows [of "(init 0)\<lparr>input := ''hi''\<rparr>" env_ok
      "[StreamChunk chunk_a, SetInput ''x'']" chunk_b "[chunk_a]"]
  by (simp add: eval_defs consume_all_def)

subsection \<open>Update by id and the order of the transcript\<close>

lemma update_by_id_length: "length (update_by_id bid full srcs prev) = length prev"
  by (simp add: update_by_id_def)

lemma update_by_id_ids: "map id_m (update_by_id bid full srcs prev) = map id_m prev"
  by (simp add: update_by_id_def comp_def)

lemma update_by_id_nth:
  "i < length prev \<Longrightarrow>
     update_by_id bid full srcs prev ! i =
       (if id_m (prev ! i) = bid
        then (prev ! i)\<lparr>content := full, sources := (if srcs = [] then None else Some srcs)\<rparr>
        else prev ! i)"
  by (simp add: update_by_id_def)

lemma step_ids:
  "(case e of ClearChat now d \<Rightarrow> True
    | _ \<Rightarrow> prefix (map id_m (messages s)) (map id_m (messages (step e s))))"
  by (cases e)
    (auto simp: handleSend_def Let_def catch_finally_def resume_chunk_def
      resume_done_def resume_error_def update_by_id_ids split: option.splits)

text \<open>
  Claim C7.  The update by id returns a list of the same length with the same ids at the
  same positions; an entry whose id is the target has its content and sources replaced,
  every other entry is the entry of the old list.  No event but clearing the chat moves
  a message: the ids of the transcript before the event are a prefix of the ids after it.
\<close>

theorem update_by_id_frame:
  "length (update_by_id bid full srcs prev) = length prev
   \<and> map id_m (update_by_id bid full srcs prev) = map id_m prev
   \<and> (\<forall>i<length prev.
         update_by_id bid full srcs prev ! i =
           (if id_m (prev ! i) = bid
            then (prev ! i)\<lparr>content := full, sources := (if srcs = [] then None else Some srcs)\<rparr>
            else prev ! i))
   \<and> (case e of ClearChat now d \<Rightarrow> True
       | _ \<Rightarrow> prefix (map id_m (messages s)) (map id_m (messages (step e s))))"
  using step_ids [where e = e and s = s]
  by (simp add: update_by_id_length update_by_id_ids update_by_id_nth)

theorem update_by_id_frame_witness:
  "update_by_id ''2'' ''Hi'' []
     [\<lparr>id_m = ''1'', role = User, content = ''q'', timestamp = 0, image_m = None, sources = None\<rparr>,
      \<lparr>id_m = ''2'', role = Bot, content = '''', timestamp = 0, image_m = None, sources = None\<rparr>]
   = [\<lparr>id_m = ''1'', role = User, content = ''q'', timestamp = 0, image_m = None, sources = None\<rparr>,
      \<lparr>id_m = ''2'', role = Bot, content = ''Hi'', timestamp = 0, image_m = None, sources = None\<rparr>]"
  using update_by_id_frame [where bid = "''2''" and full = "''Hi''" and srcs = "[]"
     and prev = "[\<lparr>id_m = ''1'', role = User, content = ''q'', timestamp = 0, image_m = None, sources = None\<rparr>,
      \<lparr>id_m = ''2'', role = Bot, content = '''', timestamp = 0, image_m = None, sources = None\<rparr>]"
     and e = "SetInput ''x''" and s = "init 0"]
  by (simp add: update_by_id_def)

subsection \<open>Message ids\<close>

text \<open>
  Claim C8.  Ids are readings of the clock.  Without an API key the user message and the
  apology are created in the same synchronous run of the handler, so both read the same
  millisecond: the transcript then holds two messages with one id.
\<close>

theorem duplicate_ids:
  "map id_m (messages (run [SetInput ''hi'', ClickSend env_nokey] (init 0)))
     = [''1'', ''1700000000000'', ''1700000000000'']
   \<and> map content (messages (run [SetInput ''hi'', ClickSend env_nokey] (init 0)))
     = [''Hello! I'm your Gemini-powered assistant. How can I help you today?'', ''hi'',
        ''I'm sorry, I encountered an error. Please try again later.'']
   \<and> \<not> distinct (map id_m (messages (run [SetInput ''hi'', ClickSend env_nokey] (init 0))))"
  by (simp add: eval_defs)

subsection \<open>Sending an image without text\<close>

text \<open>
  Claim C9.  When the trimmed input is empty and an image is attached, the user message
  appended has the content \<open>Analyze this image\<close> and carries the image; when the stream is
  opened, the same string is the text part of the prompt, after the image part.
\<close>

theorem image_only_send:
  assumes "trim (input s) = []" and "js_truthy (selectedImage s)" and "\<not> isLoading s"
  shows "take (Suc (length (messages s))) (messages (handleSend env s))
           = messages s @ [userMessage env s]
         \<and> content (userMessage env s) = ''Analyze this image''
         \<and> image_m (userMessage env s) = selectedImage s
         \<and> (js_truthy (apiKey env) \<and> client_ok env \<and> create_ok env \<longrightarrow>
              last (calls (handleSend env s))
                = SendMessageStream
                    (imageParts (selectedImage s) @ [TextPart ''Analyze this image'']))"
  using assms
  by (auto simp: handleSend_def Let_def catch_finally_def userMessage_def messageParts_def)

theorem image_only_send_witness:
  "content (messages (handleSend env_ok
       ((init 0)\<lparr>selectedImage := Some ''data:image/png;base64,AAAA''\<rparr>)) ! 1)
     = ''Analyze this image''
   \<and> image_m (messages (handleSend env_ok
       ((init 0)\<lparr>selectedImage := Some ''data:image/png;base64,AAAA''\<rparr>)) ! 1)
     = Some ''data:image/png;base64,AAAA''
   \<and> last (calls (handleSend env_ok
       ((init 0)\<lparr>selectedImage := Some ''data:image/png;base64,AAAA''\<rparr>)))
     = SendMessageStream [InlineData (Some ''AAAA'') ''image/jpeg'', TextPart ''Analyze this image'']"
  using image_only_send [of "(init 0)\<lparr>selectedImage := Some ''data:image/png;base64,AAAA''\<rparr>" env_ok]
  by (simp add: trim_blank init_def env_ok_def send_defs)

subsection \<open>The transcript is never empty\<close>

lemma step_length:
  "(case e of ClearChat now d \<Rightarrow> length (messages (step e s)) = 1
    | _ \<Rightarrow> length (messages s) \<le> length (messages (step e s)))"
  by (cases e)
    (auto simp: handleSend_def Let_def catch_finally_def clearChat_def resume_chunk_def
      resume_done_def resume_error_def update_by_id_length split: option.splits)

lemma step_nonempty: "messages s \<noteq> [] \<Longrightarrow> messages (step e s) \<noteq> []"
  using step_length [where e = e and s = s] by (cases e) auto

text \<open>
  Claim C10.  The initial transcript is one bot message; clearing the chat leaves exactly
  one message and every other event leaves at least as many messages as before; so after
  any sequence of events the transcript has a message.
\<close>

theorem transcript_nonempty:
  "length (messages (init date)) = 1
   \<and> role (hd (messages (init date))) = Bot
   \<and> (case e of ClearChat now d \<Rightarrow> length (messages (step e s)) = 1
       | _ \<Rightarrow> length (messages s) \<le> length (messages (step e s)))
   \<and> messages (run evs (init date)) \<noteq> []"
proof -
  have "messages (init date) \<noteq> []" by (simp add: init_def)
  then have "messages (run evs (init date)) \<noteq> []"
    by (rule run_invariant) (rule step_nonempty)
  then show ?thesis
    using step_length [where e = e and s = s] by (simp add: init_def)
qed

theorem transcript_nonempty_witness:
  "length (messages (run [SetInput ''hi'', ClickSend env_nokey, ClearChat 7 7] (init 0))) = 1
   \<and> length (messages (run [SetInput ''hi'', ClickSend env_nokey] (init 0))) = 3"
  using transcript_nonempty [where date = 0 and e = "ClearChat 7 7"
      and s = "run [SetInput ''hi'', ClickSend env_nokey] (init 0)"
      and evs = "[SetInput ''hi'', ClickSend env_nokey, ClearChat 7 7]"]
  by (simp add: run_def clearChat_def init_def env_nokey_def env_ok_def trim_blank send_defs)

end
